theory Spec2Isabelle
  imports Complex_Main
begin

section \<open>Decoding of the YOLO output in \<^verbatim>\<open>myolo/model.py\<close>\<close>

text \<open>
  The theory embeds \<^verbatim>\<open>BoundBox\<close>, \<^verbatim>\<open>bbox_iou\<close>, \<^verbatim>\<open>_interval_overlap\<close>,
  \<^verbatim>\<open>batch_decode_yolo\<close>, \<^verbatim>\<open>_sigmoid\<close> and \<^verbatim>\<open>_softmax\<close>, on numpy arrays of floats.

  Numbers are real numbers: floating-point rounding, overflow to \<^verbatim>\<open>inf\<close> and \<^verbatim>\<open>nan\<close> are
  not modelled. The Python exceptions that the code can raise are values of type \<open>error\<close>,
  and a function that can raise returns \<open>Inl\<close> of the exception or \<open>Inr\<close> of its result.
\<close>

datatype error = ValueError | IndexError | TypeError | ZeroDivisionError

subsection \<open>Arrays\<close>

text \<open>
  A numpy array is its shape together with its vectors along the last axis, in row-major
  order: an array of shape \<open>[d0, ..., dn, C]\<close> has \<open>d0 * ... * dn\<close> rows of length \<open>C\<close>.
  The function works on the caller's array in place, so the array is a piece of state: it is
  passed in and the updated array is returned.
\<close>

record ndarray =
  shape :: "nat list"
  rows :: "real list list"

definition wf_array :: "ndarray \<Rightarrow> bool" where
  "wf_array a \<longleftrightarrow>
     shape a \<noteq> [] \<and> length (rows a) = prod_list (butlast (shape a)) \<and>
     list_all (\<lambda>v. length v = last (shape a)) (rows a)"

text \<open>\<^verbatim>\<open>np.max\<close> and \<^verbatim>\<open>np.min\<close> over all elements of a non-empty array.\<close>

definition np_max :: "real list \<Rightarrow> real" where
  "np_max xs = fold max (tl xs) (hd xs)"

definition np_min :: "real list \<Rightarrow> real" where
  "np_min xs = fold min (tl xs) (hd xs)"

subsection \<open>Boxes and intersection over union\<close>

text \<open>
  \<^verbatim>\<open>BoundBox\<close>. The attribute \<^verbatim>\<open>classes\<close> is \<^verbatim>\<open>yolo_out[row, col, b, 5:]\<close>, a numpy
  view of the array and not a copy: it is modelled by the index of the row it looks at,
  and reading or writing \<^verbatim>\<open>box.classes[k]\<close> reads or writes entry \<open>5 + k\<close> of that row.
  The coordinates passed by \<^verbatim>\<open>batch_decode_yolo\<close> are Python integers, embedded in the reals.
\<close>

record BoundBox =
  xmin :: real
  ymin :: real
  xmax :: real
  ymax :: real
  c :: real
  classes :: nat
  label :: int
  score :: real

definition interval_overlap :: "real \<times> real \<Rightarrow> real \<times> real \<Rightarrow> real" where
  "interval_overlap interval_a interval_b =
     (let (x1, x2) = interval_a; (x3, x4) = interval_b in
      if x3 < x1 then
        (if x4 < x1 then 0 else min x2 x4 - x1)
      else
        (if x2 < x3 then 0 else min x2 x4 - x3))"

text \<open>
  \<^verbatim>\<open>float(intersect) / union\<close> on Python numbers raises \<^verbatim>\<open>ZeroDivisionError\<close> when
  \<^verbatim>\<open>union\<close> is zero.
\<close>

definition bbox_iou :: "BoundBox \<Rightarrow> BoundBox \<Rightarrow> error + real" where
  "bbox_iou box1 box2 =
     (let intersect_w = interval_overlap (xmin box1, xmax box1) (xmin box2, xmax box2);
          intersect_h = interval_overlap (ymin box1, ymax box1) (ymin box2, ymax box2);
          intersect = intersect_w * intersect_h;
          w1 = xmax box1 - xmin box1; h1 = ymax box1 - ymin box1;
          w2 = xmax box2 - xmin box2; h2 = ymax box2 - ymin box2;
          union = w1 * h1 + w2 * h2 - intersect
      in if union = 0 then Inl ZeroDivisionError else Inr (intersect / union))"

subsection \<open>Activation\<close>

definition sigmoid :: "real \<Rightarrow> real" where
  "sigmoid x = 1 / (1 + exp (- x))"

text \<open>
  \<^verbatim>\<open>_softmax(x, axis=-1, t=-100.)\<close>, called on \<^verbatim>\<open>yolo_out[..., 5:]\<close>, that is on the
  class parts of all rows at once. \<^verbatim>\<open>np.max(x)\<close> and \<^verbatim>\<open>np.min(x)\<close> have no axis argument:
  they range over the whole array, and raise \<^verbatim>\<open>ValueError\<close> on an array without elements.
  Only the sum is taken along the last axis.
\<close>

definition softmax :: "real list list \<Rightarrow> real \<Rightarrow> error + real list list" where
  "softmax x t =
     (if concat x = [] then Inl ValueError
      else
        let m = np_max (concat x);
            x1 = map (map (\<lambda>v. v - m)) x;
            mn = np_min (concat x1);
            x2 = (if mn < t then map (map (\<lambda>v. v / mn * t)) x1 else x1);
            e_x = map (map exp) x2
        in Inr (map (\<lambda>r. map (\<lambda>e. e / sum_list r) r) e_x))"

text \<open>
  Lines 671 to 673 of \<^verbatim>\<open>batch_decode_yolo\<close>: the three in-place assignments to
  \<^verbatim>\<open>yolo_out[..., 4]\<close> and \<^verbatim>\<open>yolo_out[..., 5:]\<close>. Indexing the last axis at 4 raises
  \<^verbatim>\<open>IndexError\<close> when that axis is shorter than 5. \<open>class_scores\<close> is the content of
  \<^verbatim>\<open>yolo_out[..., 5:]\<close> after line 672 and \<open>threshold_mask\<close> is line 673.
\<close>

definition objectness :: "real list list \<Rightarrow> real list list" where
  "objectness rs = map (\<lambda>v. v[4 := sigmoid (v ! 4)]) rs"

definition class_scores :: "real list list \<Rightarrow> error + real list list" where
  "class_scores rs =
     (case softmax (map (drop 5) rs) (- 100) of
        Inl e \<Rightarrow> Inl e
      | Inr p \<Rightarrow> Inr (map (\<lambda>(v, q). take 5 v @ map (\<lambda>z. v ! 4 * z) q) (zip rs p)))"

definition threshold_mask :: "real \<Rightarrow> real list list \<Rightarrow> real list list" where
  "threshold_mask obj_thre rs =
     map (\<lambda>v. take 5 v @ map (\<lambda>z. z * (if z > obj_thre then 1 else 0)) (drop 5 v)) rs"

definition activate :: "ndarray \<Rightarrow> real \<Rightarrow> error + ndarray" where
  "activate yolo_out obj_thre =
     (if last (shape yolo_out) < 5 then Inl IndexError
      else
        case class_scores (objectness (rows yolo_out)) of
          Inl e \<Rightarrow> Inl e
        | Inr rs \<Rightarrow> Inr (yolo_out\<lparr>rows := threshold_mask obj_thre rs\<rparr>))"

subsection \<open>Candidate construction\<close>

text \<open>\<^verbatim>\<open>int(x)\<close> on a float truncates toward zero.\<close>

definition int_trunc :: "real \<Rightarrow> int" where
  "int_trunc x = (if 0 \<le> x then \<lfloor>x\<rfloor> else \<lceil>x\<rceil>)"

text \<open>
  The body of the triple loop (lines 679 to 700) at \<open>(row, col, b)\<close>; it returns the boxes
  it appends. \<^verbatim>\<open>yolo_out[row, col, b, ...]\<close> indexes the first three axes, whatever they
  stand for, and raises \<^verbatim>\<open>IndexError\<close> outside them.

  On an array with four axes \<^verbatim>\<open>yolo_out[row, col, b, 5:]\<close> is a part of one row, and
  \<^verbatim>\<open>x, y, w, h\<close> are numbers. \<open>cell_row\<close> is the position of that row, \<open>first_box\<close> is
  the box of line 692, in units of the image, and \<open>pixel_box\<close> is the box of line 698, on
  the feature map.

  On an array with five or more axes \<^verbatim>\<open>yolo_out[row, col, b, 5:]\<close> is a block of rows
  (those from position 5 on along the fourth axis), \<^verbatim>\<open>np.sum\<close> adds all their elements,
  \<^verbatim>\<open>x, y, w, h\<close> are arrays with as many elements as a row or more, and \<^verbatim>\<open>int(...)\<close> of
  such an array raises \<^verbatim>\<open>TypeError\<close>, the rows having more than one element once line 672
  has passed.
\<close>

definition cell_row :: "nat list \<Rightarrow> nat \<Rightarrow> nat \<Rightarrow> nat \<Rightarrow> nat" where
  "cell_row s row col b = (row * s ! 1 + col) * s ! 2 + b"

definition first_box ::
  "real list \<Rightarrow> real list \<Rightarrow> nat \<Rightarrow> nat \<Rightarrow> nat \<Rightarrow> nat \<Rightarrow> nat \<Rightarrow> nat \<Rightarrow> BoundBox" where
  "first_box v anchors grid_h grid_w row col b r =
     (let x = (real col + sigmoid (v ! 0)) / real grid_w;
          y = (real row + sigmoid (v ! 1)) / real grid_h;
          w = anchors ! (2 * b + 0) * exp (v ! 2) / real grid_w;
          h = anchors ! (2 * b + 1) * exp (v ! 3) / real grid_h;
          confidence = v ! 4
      in \<lparr>xmin = x - w / 2, ymin = y - h / 2, xmax = x + w / 2, ymax = y + h / 2,
          c = confidence, classes = r, label = - 1, score = - 1\<rparr>)"

definition pixel_box :: "int \<Rightarrow> int \<Rightarrow> BoundBox \<Rightarrow> BoundBox" where
  "pixel_box fm_height fm_width box =
     (let xmin = min (int_trunc (xmin box * real_of_int fm_width)) fm_height;
          ymin = min (int_trunc (ymin box * real_of_int fm_height)) fm_height;
          xmax = min (int_trunc (xmax box * real_of_int fm_width)) fm_width;
          ymax = min (int_trunc (ymax box * real_of_int fm_height)) fm_height
      in \<lparr>xmin = real_of_int xmin, ymin = real_of_int ymin,
          xmax = real_of_int xmax, ymax = real_of_int ymax,
          c = c box, classes = classes box, label = - 1, score = - 1\<rparr>)"

definition loop_body ::
  "ndarray \<Rightarrow> real list \<Rightarrow> int \<Rightarrow> int \<Rightarrow> nat \<Rightarrow> nat \<Rightarrow> nat \<Rightarrow> nat \<Rightarrow> nat \<Rightarrow> error + BoundBox list" where
  "loop_body yolo_out anchors fm_height fm_width grid_h grid_w row col b =
     (let s = shape yolo_out in
      if \<not> (row < s ! 0 \<and> col < s ! 1 \<and> b < s ! 2) then Inl IndexError
      else if length s = 4 then
        (let r = cell_row s row col b;
             v = rows yolo_out ! r;
             classes = drop 5 v
         in if sum_list classes > 0 then
              (if length anchors \<le> 2 * b + 1 then Inl IndexError
               else Inr [pixel_box fm_height fm_width
                           (first_box v anchors grid_h grid_w row col b r)])
            else Inr [])
      else
        (let n = s ! 3;
             inner = prod_list (butlast (drop 4 s));
             block = take (n * inner)
                       (drop (cell_row s row col b * (n * inner)) (rows yolo_out));
             classes = drop (5 * inner) block
         in if sum_list (map sum_list classes) > 0 then
              (if n < 4 then Inl ValueError
               else if length anchors \<le> 2 * b + 1 then Inl IndexError
               else Inl TypeError)
            else Inr []))"

text \<open>A \<^verbatim>\<open>for\<close> loop that appends to a list and stops at the first exception.\<close>

fun collect :: "('a \<Rightarrow> error + 'b list) \<Rightarrow> 'a list \<Rightarrow> error + 'b list" where
  "collect f [] = Inr []"
| "collect f (x # xs) =
     (case f x of
        Inl e \<Rightarrow> Inl e
      | Inr ys \<Rightarrow> (case collect f xs of Inl e \<Rightarrow> Inl e | Inr zs \<Rightarrow> Inr (ys @ zs)))"

definition candidates ::
  "ndarray \<Rightarrow> real list \<Rightarrow> int \<Rightarrow> int \<Rightarrow> nat \<Rightarrow> nat \<Rightarrow> nat \<Rightarrow> error + BoundBox list" where
  "candidates yolo_out anchors fm_height fm_width grid_h grid_w nb_box =
     collect (\<lambda>row.
       collect (\<lambda>col.
         collect (\<lambda>b. loop_body yolo_out anchors fm_height fm_width grid_h grid_w row col b)
           [0..<nb_box])
         [0..<grid_w])
       [0..<grid_h]"

subsection \<open>Suppression of non-maximal boxes\<close>

text \<open>
  The suppression loops (lines 703 to 716) write through the boxes' views, so they work on
  the rows of the array. \<open>class_score st box k\<close> reads \<^verbatim>\<open>box.classes[k]\<close> and
  \<open>zero_class st box k\<close> is the assignment \<^verbatim>\<open>box.classes[k] = 0\<close>.
\<close>

definition class_score :: "real list list \<Rightarrow> BoundBox \<Rightarrow> nat \<Rightarrow> real" where
  "class_score st box k = st ! classes box ! (5 + k)"

definition zero_class :: "real list list \<Rightarrow> BoundBox \<Rightarrow> nat \<Rightarrow> real list list" where
  "zero_class st box k = st[classes box := (st ! classes box)[5 + k := 0]]"

text \<open>
  \<^verbatim>\<open>np.argsort\<close>: the indices that sort the keys in ascending order. numpy's default
  kind promises no stability; it sorts short arrays by insertion, which keeps equal keys in
  their order, and the model is that stable sort.
\<close>

definition argsort :: "real list \<Rightarrow> nat list" where
  "argsort ks = sort_key (\<lambda>i. ks ! i) [0..<length ks]"

text \<open>The loop over \<^verbatim>\<open>j\<close> (lines 712 to 716), over the indices ranked after \<^verbatim>\<open>index_i\<close>.\<close>

fun suppress_later ::
  "BoundBox list \<Rightarrow> nat \<Rightarrow> real \<Rightarrow> nat \<Rightarrow> nat list \<Rightarrow> real list list \<Rightarrow> error + real list list" where
  "suppress_later boxes k nms_thre index_i [] st = Inr st"
| "suppress_later boxes k nms_thre index_i (index_j # js) st =
     (case bbox_iou (boxes ! index_i) (boxes ! index_j) of
        Inl e \<Rightarrow> Inl e
      | Inr v \<Rightarrow>
          suppress_later boxes k nms_thre index_i js
            (if v \<ge> nms_thre then zero_class st (boxes ! index_j) k else st))"

text \<open>The loop over \<^verbatim>\<open>i\<close> (lines 706 to 716), over the sorted indices.\<close>

fun suppress_sorted ::
  "BoundBox list \<Rightarrow> nat \<Rightarrow> real \<Rightarrow> nat list \<Rightarrow> real list list \<Rightarrow> error + real list list" where
  "suppress_sorted boxes k nms_thre [] st = Inr st"
| "suppress_sorted boxes k nms_thre (index_i # sorted_indices) st =
     (if class_score st (boxes ! index_i) k = 0 then
        suppress_sorted boxes k nms_thre sorted_indices st
      else
        case suppress_later boxes k nms_thre index_i sorted_indices st of
          Inl e \<Rightarrow> Inl e
        | Inr st' \<Rightarrow> suppress_sorted boxes k nms_thre sorted_indices st')"

text \<open>
  \<open>sorted_indices\<close> is line 704. One pass of the loop over the classes: \<^verbatim>\<open>box.classes[k]\<close>
  raises \<^verbatim>\<open>IndexError\<close> when a box has no more than \<open>k\<close> classes.
\<close>

definition sorted_indices :: "real list list \<Rightarrow> BoundBox list \<Rightarrow> nat \<Rightarrow> nat list" where
  "sorted_indices st boxes k = rev (argsort (map (\<lambda>box. class_score st box k) boxes))"

definition suppress_class ::
  "BoundBox list \<Rightarrow> real \<Rightarrow> nat \<Rightarrow> real list list \<Rightarrow> error + real list list" where
  "suppress_class boxes nms_thre k st =
     (if list_ex (\<lambda>box. length (st ! classes box) \<le> 5 + k) boxes then Inl IndexError
      else suppress_sorted boxes k nms_thre (sorted_indices st boxes k) st)"

fun suppress ::
  "BoundBox list \<Rightarrow> real \<Rightarrow> nat list \<Rightarrow> real list list \<Rightarrow> error + real list list" where
  "suppress boxes nms_thre [] st = Inr st"
| "suppress boxes nms_thre (k # ks) st =
     (case suppress_class boxes nms_thre k st of
        Inl e \<Rightarrow> Inl e
      | Inr st' \<Rightarrow> suppress boxes nms_thre ks st')"

subsection \<open>The final filter and the whole function\<close>

text \<open>
  \<^verbatim>\<open>np.argmax\<close> is the first position of the maximum. \<^verbatim>\<open>get_label\<close> and \<^verbatim>\<open>get_score\<close>
  store what they compute in the box; the model returns the box with its fields set, and
  the value of \<^verbatim>\<open>box.get_score()\<close> is the field \<open>score\<close> of that box.
\<close>

definition argmax :: "real list \<Rightarrow> nat" where
  "argmax xs = length (takeWhile (\<lambda>x. x \<noteq> np_max xs) xs)"

definition get_label :: "real list list \<Rightarrow> BoundBox \<Rightarrow> error + BoundBox" where
  "get_label st box =
     (if label box = - 1 then
        (if drop 5 (st ! classes box) = [] then Inl ValueError
         else Inr (box\<lparr>label := int (argmax (drop 5 (st ! classes box)))\<rparr>))
      else Inr box)"

definition get_score :: "real list list \<Rightarrow> BoundBox \<Rightarrow> error + BoundBox" where
  "get_score st box =
     (if score box = - 1 then
        (case get_label st box of
           Inl e \<Rightarrow> Inl e
         | Inr box' \<Rightarrow> Inr (box'\<lparr>score := class_score st box' (nat (label box'))\<rparr>))
      else Inr box)"

text \<open>Line 719, the list comprehension that keeps the boxes above the threshold.\<close>

definition final_filter :: "real list list \<Rightarrow> real \<Rightarrow> BoundBox list \<Rightarrow> error + BoundBox list" where
  "final_filter st obj_thre boxes =
     collect (\<lambda>box. case get_score st box of
                      Inl e \<Rightarrow> Inl e
                    | Inr box' \<Rightarrow> Inr (if score box' > obj_thre then [box'] else [])) boxes"

text \<open>
  \<^verbatim>\<open>batch_decode_yolo\<close>. Unpacking \<^verbatim>\<open>yolo_out.shape[:4]\<close> into four names raises
  \<^verbatim>\<open>ValueError\<close> when the array has fewer than four axes. \<^verbatim>\<open>feature_map_shape\<close> is the
  pair of the integers \<^verbatim>\<open>int(feature_map_shape[0])\<close> and \<^verbatim>\<open>int(feature_map_shape[1])\<close>.
  The result is the list returned together with the caller's array as the call leaves it.
\<close>

definition batch_decode_yolo ::
  "ndarray \<Rightarrow> real list \<Rightarrow> nat \<Rightarrow> int \<times> int \<Rightarrow> real \<Rightarrow> real \<Rightarrow> error + BoundBox list \<times> ndarray" where
  "batch_decode_yolo yolo_out anchors nb_class feature_map_shape obj_thre nms_thre =
     (if length (shape yolo_out) < 4 then Inl ValueError
      else
        let batch = shape yolo_out ! 0; grid_h = shape yolo_out ! 1;
            grid_w = shape yolo_out ! 2; nb_box = shape yolo_out ! 3;
            fm_height = fst feature_map_shape;
            fm_width = snd feature_map_shape
        in case activate yolo_out obj_thre of
             Inl e \<Rightarrow> Inl e
           | Inr a \<Rightarrow>
               (case candidates a anchors fm_height fm_width grid_h grid_w nb_box of
                  Inl e \<Rightarrow> Inl e
                | Inr boxes \<Rightarrow>
                    (case suppress boxes nms_thre [0..<nb_class] (rows a) of
                       Inl e \<Rightarrow> Inl e
                     | Inr st \<Rightarrow>
                         (case final_filter st obj_thre boxes of
                            Inl e \<Rightarrow> Inl e
                          | Inr kept \<Rightarrow> Inr (kept, a\<lparr>rows := st\<rparr>)))))"

section \<open>Notions used in the statements\<close>

text \<open>A box with ordered corners, and its area as \<^verbatim>\<open>bbox_iou\<close> computes it.\<close>

definition well_formed :: "BoundBox \<Rightarrow> bool" where
  "well_formed box \<longleftrightarrow> xmin box \<le> xmax box \<and> ymin box \<le> ymax box"


text \<open>
  \<open>zeroed_in K st st'\<close>: the rows \<open>st'\<close> are the rows \<open>st\<close> with some class entries, of
  classes in \<open>K\<close>, set to zero. \<open>views_in st k box\<close>: the view of the box lies in the
  array and has a class \<open>k\<close>.
\<close>

definition zeroed_in :: "nat set \<Rightarrow> real list list \<Rightarrow> real list list \<Rightarrow> bool" where
  "zeroed_in K st st' \<longleftrightarrow>
     length st' = length st \<and>
     (\<forall>r. length (st' ! r) = length (st ! r) \<and>
          (\<forall>i. st' ! r ! i = st ! r ! i \<or> (\<exists>k\<in>K. i = 5 + k) \<and> st' ! r ! i = 0))"

definition views_in :: "real list list \<Rightarrow> nat \<Rightarrow> BoundBox \<Rightarrow> bool" where
  "views_in st k box \<longleftrightarrow> classes box < length st \<and> 5 + k < length (st ! classes box)"

section \<open>Concrete inputs\<close>

text \<open>Two overlapping boxes.\<close>

definition box_a :: BoundBox where
  "box_a = \<lparr>xmin = 0, ymin = 0, xmax = 4, ymax = 4, c = 1 / 2, classes = 0,
            label = - 1, score = - 1\<rparr>"

definition box_b :: BoundBox where
  "box_b = \<lparr>xmin = 2, ymin = 1, xmax = 6, ymax = 3, c = 1 / 2, classes = 1,
            label = - 1, score = - 1\<rparr>"

text \<open>
  Three candidates of one class and the rows their views look at: the first two boxes
  coincide, the third is apart.
\<close>

definition nms_boxes :: "BoundBox list" where
  "nms_boxes =
     [\<lparr>xmin = 0, ymin = 0, xmax = 4, ymax = 4, c = 1 / 2, classes = 0,
       label = - 1, score = - 1\<rparr>,
      \<lparr>xmin = 0, ymin = 0, xmax = 4, ymax = 4, c = 9 / 10, classes = 1,
       label = - 1, score = - 1\<rparr>,
      \<lparr>xmin = 10, ymin = 10, xmax = 12, ymax = 12, c = 7 / 10, classes = 2,
       label = - 1, score = - 1\<rparr>]"

definition nms_store :: "real list list" where
  "nms_store =
     [[0, 0, 0, 0, 1 / 2, 1 / 2], [0, 0, 0, 0, 9 / 10, 9 / 10], [0, 0, 0, 0, 7 / 10, 7 / 10]]"

definition nms_store' :: "real list list" where
  "nms_store' =
     [[0, 0, 0, 0, 1 / 2, 0], [0, 0, 0, 0, 9 / 10, 9 / 10], [0, 0, 0, 0, 7 / 10, 7 / 10]]"



text \<open>
  The softmax as the specification words it, to compare with \<open>softmax\<close>: every vector
  is stabilised on its own, by its own maximum and its own minimum.
\<close>

definition softmax_per_vector :: "real list list \<Rightarrow> real \<Rightarrow> error + real list list" where
  "softmax_per_vector x t =
     (if concat x = [] then Inl ValueError
      else Inr (map (\<lambda>v.
             let x1 = map (\<lambda>z. z - np_max v) v;
                 mn = np_min x1;
                 x2 = (if mn < t then map (\<lambda>z. z / mn * t) x1 else x1);
                 e_x = map exp x2
             in map (\<lambda>e. e / sum_list e_x) e_x) x))"

text \<open>Two vectors of class logits, and an array with a single cell and one class.\<close>

definition two_vectors :: "real list list" where
  "two_vectors = [[0, - 150], [0, - 300]]"

definition one_cell :: ndarray where
  "one_cell = \<lparr>shape = [1, 1, 1, 6], rows = [[0, 0, 0, 0, 0, 0]]\<rparr>"

text \<open>
  A batch of two images with one cell, one anchor and one class each, all logits zero, as
  an array with five axes; the array after one call and after two calls, and after a call
  with the threshold 2.
\<close>

definition batch_of_two :: ndarray where
  "batch_of_two = \<lparr>shape = [2, 1, 1, 1, 6], rows = [[0, 0, 0, 0, 0, 0], [0, 0, 0, 0, 0, 0]]\<rparr>"

definition batch_of_two_decoded :: ndarray where
  "batch_of_two_decoded =
     \<lparr>shape = [2, 1, 1, 1, 6],
      rows = [[0, 0, 0, 0, 1 / 2, 1 / 2], [0, 0, 0, 0, 1 / 2, 1 / 2]]\<rparr>"

definition batch_of_two_masked :: ndarray where
  "batch_of_two_masked =
     \<lparr>shape = [2, 1, 1, 1, 6],
      rows = [[0, 0, 0, 0, 1 / 2, 0], [0, 0, 0, 0, 1 / 2, 0]]\<rparr>"

definition batch_of_two_twice :: ndarray where
  "batch_of_two_twice =
     \<lparr>shape = [2, 1, 1, 1, 6],
      rows = [[0, 0, 0, 0, sigmoid (1 / 2), sigmoid (1 / 2)],
              [0, 0, 0, 0, sigmoid (1 / 2), sigmoid (1 / 2)]]\<rparr>"

text \<open>
  An array with four axes of length 6 and one class. The cells \<open>(0, 0, 0)\<close> and
  \<open>(0, 0, 1)\<close> have the objectness logit 0, all others have \<open>- 2\<close>. The array after the
  activation pass with the threshold \<open>3 / 10\<close>, and after the whole call with
  \<open>unit_anchors\<close>.
\<close>

definition six_grid :: ndarray where
  "six_grid =
     \<lparr>shape = [6, 6, 6, 6],
      rows = [0, 0, 0, 0, 0, 0] # [0, 0, 0, 0, 0, 0] # replicate 214 [0, 0, 0, 0, - 2, 0]\<rparr>"

definition six_grid_activated :: ndarray where
  "six_grid_activated =
     \<lparr>shape = [6, 6, 6, 6],
      rows = [0, 0, 0, 0, 1 / 2, 1 / 2] # [0, 0, 0, 0, 1 / 2, 1 / 2] #
               replicate 214 [0, 0, 0, 0, sigmoid (- 2), 0]\<rparr>"


definition unit_anchors :: "real list" where
  "unit_anchors = [1, 1, 1, 1, 1, 1, 1, 1, 1, 1, 1, 1]"



text \<open>The candidates of \<open>six_grid\<close> with \<open>unit_anchors\<close> and with \<open>small_anchors\<close>.\<close>

definition box_0 :: BoundBox where
  "box_0 = \<lparr>xmin = 0, ymin = 0, xmax = 4, ymax = 4, c = 1 / 2, classes = 0,
               label = - 1, score = - 1\<rparr>"
definition box_1 :: BoundBox where
  "box_1 = \<lparr>xmin = 0, ymin = 0, xmax = 4, ymax = 4, c = 1 / 2, classes = 1,
               label = - 1, score = - 1\<rparr>"

section \<open>Intersection over union\<close>

lemma interval_overlap_commute:
  "x1 \<le> x2 \<Longrightarrow> x3 \<le> x4 \<Longrightarrow>
     interval_overlap (x1, x2) (x3, x4) = interval_overlap (x3, x4) (x1, x2)"
  by (auto simp: interval_overlap_def)



lemma bbox_iou_a_b: "bbox_iou box_a box_b = Inr (1 / 5)"
  by (simp add: bbox_iou_def interval_overlap_def box_a_def box_b_def Let_def)

text \<open>
  C9. For boxes with \<open>xmin \<le> xmax\<close> and \<open>ymin \<le> ymax\<close> the value of \<^verbatim>\<open>bbox_iou\<close>, or
  its failure, does not depend on the order of the two boxes.
\<close>

theorem bbox_iou_symmetric:
  assumes "well_formed a" "well_formed b"
  shows "bbox_iou a b = bbox_iou b a"
  using assms
  by (simp add: bbox_iou_def well_formed_def Let_def add.commute
        interval_overlap_commute [of "xmin a" "xmax a" "xmin b" "xmax b"]
        interval_overlap_commute [of "ymin a" "ymax a" "ymin b" "ymax b"])

theorem bbox_iou_symmetric_witness:
  "well_formed box_a \<and> well_formed box_b \<and> bbox_iou box_b box_a = Inr (1 / 5)"
proof -
  have a: "well_formed box_a" by (simp add: well_formed_def box_a_def)
  have b: "well_formed box_b" by (simp add: well_formed_def box_b_def)
  show ?thesis using bbox_iou_symmetric [OF a b] a b bbox_iou_a_b by simp
qed



section \<open>The order of suppression\<close>

lemma sorted_wrt_filter_nth:
  "sorted_wrt R (filter P xs) \<Longrightarrow> i < j \<Longrightarrow> j < length xs \<Longrightarrow> P (xs ! i) \<Longrightarrow> P (xs ! j)
     \<Longrightarrow> R (xs ! i) (xs ! j)"
proof (induction xs arbitrary: i j)
  case Nil
  then show ?case by simp
next
  case (Cons x xs)
  show ?case
  proof (cases i)
    case 0
    then obtain j' where j: "j = Suc j'" using Cons.prems(2) by (cases j) auto
    then have "xs ! j' \<in> set (filter P xs)" using Cons.prems by auto
    then show ?thesis using Cons.prems 0 j by auto
  next
    case (Suc i')
    then obtain j' where j: "j = Suc j'" using Cons.prems(2) by (cases j) auto
    have "sorted_wrt R (filter P xs)" using Cons.prems(1) by (cases "P x") auto
    then show ?thesis using Cons.IH [of i' j'] Cons.prems Suc j by auto
  qed
qed

text \<open>\<open>argsort\<close> permutes the positions, sorts the keys, and keeps equal keys in order.\<close>

lemma argsort_props:
  fixes ks :: "real list"
  defines "s \<equiv> argsort ks"
  shows "set s = {0..<length ks}" "distinct s" "length s = length ks"
    and "\<And>p q. p < q \<Longrightarrow> q < length ks \<Longrightarrow> ks ! (s ! p) \<le> ks ! (s ! q)"
    and "\<And>p q. p < q \<Longrightarrow> q < length ks \<Longrightarrow> ks ! (s ! p) = ks ! (s ! q) \<Longrightarrow> s ! p < s ! q"
proof -
  show "set s = {0..<length ks}" "distinct s" and len: "length s = length ks"
    by (simp_all add: s_def argsort_def)
  have "sorted (map (\<lambda>i. ks ! i) s)" by (simp add: s_def argsort_def)
  then show "ks ! (s ! p) \<le> ks ! (s ! q)" if "p < q" "q < length ks" for p q
    using that len by (auto simp: sorted_iff_nth_mono)
  show "s ! p < s ! q" if "p < q" "q < length ks" "ks ! (s ! p) = ks ! (s ! q)" for p q
  proof -
    let ?P = "\<lambda>y. ks ! y = ks ! (s ! q)"
    have "filter ?P s = filter ?P [0..<length ks]"
      unfolding s_def argsort_def by (rule sort_key_stable)
    then have "sorted_wrt (<) (filter ?P s)" by (simp add: sorted_wrt_filter)
    then show ?thesis
      using that len by (intro sorted_wrt_filter_nth [where P = ?P and R = "(<)"]) auto
  qed
qed

lemma sorted_indices_perm:
  "set (sorted_indices st boxes k) = {0..<length boxes}"
  "length (sorted_indices st boxes k) = length boxes"
  using argsort_props(1,3) [where ks = "map (\<lambda>box. class_score st box k) boxes"]
  by (simp_all add: sorted_indices_def)






section \<open>Suppression\<close>


lemma zeroed_in_refl: "zeroed_in K st st"
  by (simp add: zeroed_in_def)

lemma zeroed_in_trans:
  assumes "zeroed_in K st st1" "zeroed_in L st1 st2"
  shows "zeroed_in (K \<union> L) st st2"
  unfolding zeroed_in_def
proof (intro conjI allI)
  show "length st2 = length st" using assms by (simp add: zeroed_in_def)
  fix r
  show "length (st2 ! r) = length (st ! r)" using assms by (simp add: zeroed_in_def)
  fix i
  have a: "st1 ! r ! i = st ! r ! i \<or> (\<exists>k\<in>K. i = 5 + k) \<and> st1 ! r ! i = 0"
    using assms(1) by (simp add: zeroed_in_def)
  have b: "st2 ! r ! i = st1 ! r ! i \<or> (\<exists>k\<in>L. i = 5 + k) \<and> st2 ! r ! i = 0"
    using assms(2) by (simp add: zeroed_in_def)
  show "st2 ! r ! i = st ! r ! i \<or> (\<exists>k\<in>K \<union> L. i = 5 + k) \<and> st2 ! r ! i = 0"
    using a b by auto
qed

lemma zeroed_in_trans_same:
  "zeroed_in K st st1 \<Longrightarrow> zeroed_in K st1 st2 \<Longrightarrow> zeroed_in K st st2"
  using zeroed_in_trans [of K st st1 K st2] by simp

lemma nth_list_update_any: "xs[i := x] ! j = (if i = j \<and> j < length xs then x else xs ! j)"
proof (cases "i < length xs")
  case True
  then show ?thesis by (simp add: nth_list_update)
next
  case False
  then have "xs[i := x] ! j = xs ! j" by (simp add: list_update_beyond)
  then show ?thesis using False by auto
qed

lemma zeroed_in_zero_class: "zeroed_in {k} st (zero_class st box k)"
  by (auto simp: zeroed_in_def zero_class_def nth_list_update_any)

lemma class_score_zero_class:
  "classes box < length st \<Longrightarrow> 5 + k < length (st ! classes box) \<Longrightarrow>
     class_score (zero_class st box k) box k = 0"
  by (simp add: class_score_def zero_class_def)

lemma zeroed_in_class_score_0:
  "zeroed_in K st st' \<Longrightarrow> class_score st box k = 0 \<Longrightarrow> class_score st' box k = 0"
  by (metis class_score_def zeroed_in_def)

lemma zeroed_in_class_score_other:
  "zeroed_in K st st' \<Longrightarrow> k \<notin> K \<Longrightarrow> class_score st' box k = class_score st box k"
  unfolding zeroed_in_def class_score_def by (metis add_left_cancel)

lemma zeroed_in_lengths:
  "zeroed_in K st st' \<Longrightarrow> length st' = length st"
  "zeroed_in K st st' \<Longrightarrow> length (st' ! r) = length (st ! r)"
  by (simp_all add: zeroed_in_def)

lemma suppress_later_zeroed:
  "suppress_later boxes k nms_thre index_i js st = Inr st' \<Longrightarrow> zeroed_in {k} st st'"
proof (induction js arbitrary: st)
  case Nil
  then show ?case by (simp add: zeroed_in_refl)
next
  case (Cons j js)
  then obtain v where v: "bbox_iou (boxes ! index_i) (boxes ! j) = Inr v"
    by (auto split: sum.splits)
  let ?st1 = "if v \<ge> nms_thre then zero_class st (boxes ! j) k else st"
  have "zeroed_in {k} st ?st1" by (simp add: zeroed_in_refl zeroed_in_zero_class)
  moreover have "zeroed_in {k} ?st1 st'" using Cons.prems v by (intro Cons.IH) simp
  ultimately show ?case by (rule zeroed_in_trans_same)
qed

lemma suppress_sorted_zeroed:
  "suppress_sorted boxes k nms_thre order st = Inr st' \<Longrightarrow> zeroed_in {k} st st'"
proof (induction order arbitrary: st)
  case Nil
  then show ?case by (simp add: zeroed_in_refl)
next
  case (Cons i order)
  show ?case
  proof (cases "class_score st (boxes ! i) k = 0")
    case True
    then show ?thesis using Cons by simp
  next
    case False
    then obtain st1 where st1: "suppress_later boxes k nms_thre i order st = Inr st1"
      and r: "suppress_sorted boxes k nms_thre order st1 = Inr st'"
      using Cons.prems by (auto split: sum.splits)
    show ?thesis
      using suppress_later_zeroed [OF st1] Cons.IH [OF r] by (rule zeroed_in_trans_same)
  qed
qed

lemma suppress_class_zeroed:
  "suppress_class boxes nms_thre k st = Inr st' \<Longrightarrow> zeroed_in {k} st st'"
  by (auto simp: suppress_class_def split: if_splits dest: suppress_sorted_zeroed)

lemma suppress_zeroed:
  "suppress boxes nms_thre ks st = Inr st' \<Longrightarrow> zeroed_in (set ks) st st'"
proof (induction ks arbitrary: st)
  case Nil
  then show ?case by (simp add: zeroed_in_refl)
next
  case (Cons k ks)
  then obtain st1 where st1: "suppress_class boxes nms_thre k st = Inr st1"
      and r: "suppress boxes nms_thre ks st1 = Inr st'"
    by (auto split: sum.splits)
  show ?case
    using zeroed_in_trans [OF suppress_class_zeroed [OF st1] Cons.IH [OF r]] by simp
qed

lemma suppress_append:
  "suppress boxes nms_thre (xs @ ys) st =
     (case suppress boxes nms_thre xs st of Inl e \<Rightarrow> Inl e | Inr st1 \<Rightarrow> suppress boxes nms_thre ys st1)"
  by (induction xs arbitrary: st) (auto split: sum.splits)

lemma views_in_zeroed: "zeroed_in K st st' \<Longrightarrow> views_in st k box \<Longrightarrow> views_in st' k box"
  by (simp add: views_in_def zeroed_in_def)

lemma suppress_later_result:
  assumes "suppress_later boxes k nms_thre index_i js st = Inr st'"
    and "\<forall>j\<in>set js. views_in st k (boxes ! j)"
  shows "\<forall>j\<in>set js. \<exists>v. bbox_iou (boxes ! index_i) (boxes ! j) = Inr v \<and>
            (nms_thre \<le> v \<longrightarrow> class_score st' (boxes ! j) k = 0)"
  using assms
proof (induction js arbitrary: st)
  case Nil
  then show ?case by simp
next
  case (Cons j js)
  then obtain v where v: "bbox_iou (boxes ! index_i) (boxes ! j) = Inr v"
    by (auto split: sum.splits)
  let ?st1 = "if v \<ge> nms_thre then zero_class st (boxes ! j) k else st"
  have r: "suppress_later boxes k nms_thre index_i js ?st1 = Inr st'"
    using Cons.prems(1) v by simp
  have z1: "zeroed_in {k} st ?st1" by (simp add: zeroed_in_refl zeroed_in_zero_class)
  have "\<forall>j\<in>set js. views_in ?st1 k (boxes ! j)"
    using Cons.prems(2) views_in_zeroed [OF z1] by simp
  then have rest: "\<forall>j\<in>set js. \<exists>v. bbox_iou (boxes ! index_i) (boxes ! j) = Inr v \<and>
            (nms_thre \<le> v \<longrightarrow> class_score st' (boxes ! j) k = 0)"
    by (rule Cons.IH [OF r])
  have "class_score st' (boxes ! j) k = 0" if "nms_thre \<le> v"
  proof -
    have "class_score ?st1 (boxes ! j) k = 0"
      using that Cons.prems(2) by (simp add: class_score_zero_class views_in_def)
    then show ?thesis using suppress_later_zeroed [OF r] zeroed_in_class_score_0 by blast
  qed
  then show ?case using v rest by simp
qed

lemma suppress_sorted_invariant:
  assumes "suppress_sorted boxes k nms_thre order st = Inr st'"
    and "\<forall>j\<in>set order. views_in st k (boxes ! j)"
  shows "\<forall>i j. i < j \<and> j < length order \<and>
           class_score st' (boxes ! (order ! i)) k \<noteq> 0 \<and>
           class_score st' (boxes ! (order ! j)) k \<noteq> 0 \<longrightarrow>
           (\<exists>v. bbox_iou (boxes ! (order ! i)) (boxes ! (order ! j)) = Inr v \<and> v < nms_thre)"
  using assms
proof (induction order arbitrary: st)
  case Nil
  then show ?case by simp
next
  case (Cons x order)
  have ex: "\<exists>st1. zeroed_in {k} st st1 \<and> suppress_sorted boxes k nms_thre order st1 = Inr st' \<and>
     (class_score st (boxes ! x) k \<noteq> 0 \<longrightarrow> suppress_later boxes k nms_thre x order st = Inr st1)"
  proof (cases "class_score st (boxes ! x) k = 0")
    case True
    then show ?thesis using Cons.prems(1) zeroed_in_refl by auto
  next
    case False
    then obtain st1 where "suppress_later boxes k nms_thre x order st = Inr st1"
      "suppress_sorted boxes k nms_thre order st1 = Inr st'"
      using Cons.prems(1) by (auto split: sum.splits)
    then show ?thesis using suppress_later_zeroed False by blast
  qed
  then obtain st1 where z: "zeroed_in {k} st st1"
    and r: "suppress_sorted boxes k nms_thre order st1 = Inr st'"
    and l: "class_score st (boxes ! x) k \<noteq> 0 \<Longrightarrow> suppress_later boxes k nms_thre x order st = Inr st1"
    by blast
  have v1: "\<forall>j\<in>set order. views_in st1 k (boxes ! j)"
    using Cons.prems(2) views_in_zeroed [OF z] by simp
  note IH = Cons.IH [OF r v1]
  have z': "zeroed_in {k} st1 st'" using r by (rule suppress_sorted_zeroed)
  show ?case
  proof (intro allI impI)
    fix i j
    assume a: "i < j \<and> j < length (x # order) \<and>
           class_score st' (boxes ! ((x # order) ! i)) k \<noteq> 0 \<and>
           class_score st' (boxes ! ((x # order) ! j)) k \<noteq> 0"
    then obtain j' where j: "j = Suc j'" by (cases j) auto
    show "\<exists>v. bbox_iou (boxes ! ((x # order) ! i)) (boxes ! ((x # order) ! j)) = Inr v \<and> v < nms_thre"
    proof (cases i)
      case 0
      have nz: "class_score st (boxes ! x) k \<noteq> 0"
        using a 0 zeroed_in_class_score_0 [OF z] zeroed_in_class_score_0 [OF z'] by auto
      have mem: "order ! j' \<in> set order" using a j by simp
      from suppress_later_result [OF l [OF nz]] Cons.prems(2) mem
      obtain v where v: "bbox_iou (boxes ! x) (boxes ! (order ! j')) = Inr v"
        "nms_thre \<le> v \<longrightarrow> class_score st1 (boxes ! (order ! j')) k = 0"
        by fastforce
      have "class_score st1 (boxes ! (order ! j')) k \<noteq> 0"
        using a j zeroed_in_class_score_0 [OF z'] by auto
      then show ?thesis using v 0 j by auto
    next
      case (Suc i')
      then show ?thesis using IH a j by auto
    qed
  qed
qed


text \<open>
  C2. After the suppression passes for the classes below \<open>nb_class\<close> have completed, any
  two candidates that still have a positive score for a class \<open>k\<close>, the first ranked before
  the second in the order of line 704 for that class, have an intersection over union
  below \<open>nms_thre\<close>. The views of the boxes lie in the array, as numpy views do.
\<close>

theorem suppress_invariant:
  assumes "suppress boxes nms_thre [0..<nb_class] st = Inr st'"
    and "\<forall>box\<in>set boxes. classes box < length st"
    and "k < nb_class"
    and "i < j" and "j < length boxes"
    and "class_score st' (boxes ! (sorted_indices st boxes k ! i)) k > 0"
    and "class_score st' (boxes ! (sorted_indices st boxes k ! j)) k > 0"
  shows "\<exists>v. bbox_iou (boxes ! (sorted_indices st boxes k ! i))
                       (boxes ! (sorted_indices st boxes k ! j)) = Inr v \<and> v < nms_thre"
proof -
  let ?order = "sorted_indices st boxes k"
  have split: "[0..<nb_class] = [0..<k] @ k # [Suc k..<nb_class]"
    using assms(3) by (metis le_add2 le_add_same_cancel2 less_imp_add_positive upt_add_eq_append upt_conv_Cons)
  obtain st1 st2 where
    s1: "suppress boxes nms_thre [0..<k] st = Inr st1" and
    s2: "suppress_class boxes nms_thre k st1 = Inr st2" and
    s3: "suppress boxes nms_thre [Suc k..<nb_class] st2 = Inr st'"
    using assms(1) unfolding split suppress_append by (auto split: sum.splits)
  have z1: "zeroed_in (set [0..<k]) st st1" using s1 by (rule suppress_zeroed)
  have z3: "zeroed_in (set [Suc k..<nb_class]) st2 st'" using s3 by (rule suppress_zeroed)
  have same1: "class_score st1 box k = class_score st box k" for box
    using z1 by (rule zeroed_in_class_score_other) simp
  have same3: "class_score st' box k = class_score st2 box k" for box
    using z3 by (rule zeroed_in_class_score_other) simp
  have order1: "sorted_indices st1 boxes k = ?order"
    by (simp add: sorted_indices_def same1)
  have noerr: "\<not> list_ex (\<lambda>box. length (st1 ! classes box) \<le> 5 + k) boxes"
    and run: "suppress_sorted boxes k nms_thre ?order st1 = Inr st2"
    using s2 by (auto simp: suppress_class_def order1 split: if_splits)
  have views: "\<forall>x\<in>set ?order. views_in st1 k (boxes ! x)"
  proof
    fix x assume "x \<in> set ?order"
    then have "boxes ! x \<in> set boxes" by (simp add: sorted_indices_perm)
    then show "views_in st1 k (boxes ! x)"
      using noerr assms(2) zeroed_in_lengths(1) [OF z1]
      by (auto simp: views_in_def list_ex_iff not_le)
  qed
  have "i < j \<and> j < length ?order \<and>
        class_score st2 (boxes ! (?order ! i)) k \<noteq> 0 \<and>
        class_score st2 (boxes ! (?order ! j)) k \<noteq> 0"
    using assms(4-7) by (simp add: sorted_indices_perm same3)
  then show ?thesis
    using suppress_sorted_invariant [OF run views] by blast
qed

lemma nms_order: "sorted_indices nms_store nms_boxes 0 = [1, 2, 0]"
  by (simp add: sorted_indices_def argsort_def nms_store_def nms_boxes_def class_score_def
        upt_rec)

lemma nms_run: "suppress nms_boxes (3 / 10) [0..<1] nms_store = Inr nms_store'"
proof -
  have "suppress_class nms_boxes (3 / 10) 0 nms_store = Inr nms_store'"
    unfolding suppress_class_def nms_order
    by (simp add: nms_store_def nms_store'_def nms_boxes_def class_score_def zero_class_def
          bbox_iou_def interval_overlap_def Let_def)
  then show ?thesis by simp
qed

theorem suppress_invariant_witness:
  "suppress nms_boxes (3 / 10) [0..<1] nms_store = Inr nms_store' \<and>
   0 < class_score nms_store' (nms_boxes ! 1) 0 \<and>
   0 < class_score nms_store' (nms_boxes ! 2) 0 \<and>
   (\<exists>v. bbox_iou (nms_boxes ! 1) (nms_boxes ! 2) = Inr v \<and> v < 3 / 10)"
proof -
  have h1: "suppress nms_boxes (3 / 10) [0..<1] nms_store = Inr nms_store'" by (rule nms_run)
  have h2: "\<forall>box\<in>set nms_boxes. classes box < length nms_store"
    by (simp add: nms_boxes_def nms_store_def)
  have h3: "(0::nat) < 1" by simp
  have h5: "1 < length nms_boxes" by (simp add: nms_boxes_def)
  have h6: "0 < class_score nms_store' (nms_boxes ! (sorted_indices nms_store nms_boxes 0 ! 0)) 0"
    unfolding nms_order by (simp add: class_score_def nms_boxes_def nms_store'_def)
  have h7: "0 < class_score nms_store' (nms_boxes ! (sorted_indices nms_store nms_boxes 0 ! 1)) 0"
    unfolding nms_order by (simp add: class_score_def nms_boxes_def nms_store'_def)
  show ?thesis
    using suppress_invariant [OF h1 h2 h3 h3 h5 h6 h7] h1 h6 h7 unfolding nms_order by simp
qed

section \<open>Activation\<close>

lemma np_max_eq: "xs \<noteq> [] \<Longrightarrow> np_max xs = Max (set xs)"
  unfolding np_max_def by (cases xs) (simp_all add: Max.set_eq_fold [symmetric])

lemma np_min_eq: "xs \<noteq> [] \<Longrightarrow> np_min xs = Min (set xs)"
  unfolding np_min_def by (cases xs) (simp_all add: Min.set_eq_fold [symmetric])

lemma Min_shift:
  fixes xs :: "real list"
  assumes "xs \<noteq> []"
  shows "Min (set (map (\<lambda>v. v - m) xs)) = Min (set xs) - m"
proof -
  have "Min ((\<lambda>v. v - m) ` set xs) = Min (set xs) - m"
    using assms by (intro mono_Min_commute [symmetric]) (auto simp: mono_def)
  then show ?thesis by simp
qed

lemma concat_map_map: "concat (map (map f) x) = map f (concat x)"
  by (induction x) simp_all

lemma softmax_closed_form:
  "softmax x t =
     (if concat x = [] then Inl ValueError
      else
        let m = Max (set (concat x));
            mn = Min (set (concat x)) - m;
            g = (\<lambda>v. if mn < t then (v - m) / mn * t else v - m)
        in Inr (map (\<lambda>r. map (\<lambda>v. exp (g v) / (\<Sum>u\<leftarrow>r. exp (g u))) r) x))"
proof (cases "concat x = []")
  case True
  then show ?thesis by (simp add: softmax_def)
next
  case False
  let ?m = "Max (set (concat x))"
  let ?mn = "Min (set (concat x)) - ?m"
  have m: "np_max (concat x) = ?m" using False by (rule np_max_eq)
  have mn: "np_min (concat (map (map (\<lambda>v. v - ?m)) x)) = ?mn"
    using False by (simp add: concat_map_map np_min_eq Min_shift del: set_concat set_map)
  show ?thesis
    using False by (simp add: softmax_def m mn Let_def comp_def del: set_concat)
qed

text \<open>
  C5, as the code has it. The maximum and the minimum are those of the whole array given
  to \<^verbatim>\<open>_softmax\<close>, the class logits of all cells together: that maximum is subtracted
  from every entry, and when the minimum of the result is below \<open>t\<close> every entry is
  rescaled by \<open>t\<close> over that minimum. Only the sum is taken vector by vector. An array
  without elements raises \<^verbatim>\<open>ValueError\<close>.
\<close>

theorem softmax_whole_array:
  "softmax x t =
     (if concat x = [] then Inl ValueError
      else
        let m = Max (set (concat x));
            mn = Min (set (concat x)) - m;
            g = (\<lambda>v. if mn < t then (v - m) / mn * t else v - m)
        in Inr (map (\<lambda>r. map (\<lambda>v. exp (g v) / (\<Sum>u\<leftarrow>r. exp (g u))) r) x))"
  by (rule softmax_closed_form)

lemma softmax_two_vectors:
  "softmax two_vectors (- 100) =
     Inr [[1 / (1 + exp (- 50)), exp (- 50) / (1 + exp (- 50))],
          [1 / (1 + exp (- 100)), exp (- 100) / (1 + exp (- 100))]]"
  by (simp add: softmax_def two_vectors_def np_max_def np_min_def)

lemma softmax_per_vector_two_vectors:
  "softmax_per_vector two_vectors (- 100) =
     Inr [[1 / (1 + exp (- 100)), exp (- 100) / (1 + exp (- 100))],
          [1 / (1 + exp (- 100)), exp (- 100) / (1 + exp (- 100))]]"
  by (simp add: softmax_per_vector_def two_vectors_def np_max_def np_min_def)

text \<open>
  Against C5 as stated: of two vectors, the first has the minimum \<open>- 150\<close> and the array
  has the minimum \<open>- 300\<close>; the code rescales the first vector by \<open>1 / 3\<close>, not by \<open>2 / 3\<close>.
\<close>

theorem softmax_per_vector_counterexample:
  "softmax two_vectors (- 100) \<noteq> softmax_per_vector two_vectors (- 100)"
proof -
  have "exp (- 50 :: real) \<noteq> exp (- 100)" by simp
  then have "1 / (1 + exp (- 50 :: real)) \<noteq> 1 / (1 + exp (- 100))"
    by (simp add: add_pos_pos field_simps)
  then show ?thesis
    by (simp add: softmax_two_vectors softmax_per_vector_two_vectors)
qed

lemma sigmoid_range: "0 < sigmoid x" "sigmoid x < 1"
  by (simp_all add: sigmoid_def add_pos_pos)

lemma sigmoid_0: "sigmoid 0 = 1 / 2"
  by (simp add: sigmoid_def)

lemma share_range:
  fixes f :: "real \<Rightarrow> real"
  assumes "v \<in> set r" "\<And>u. 0 < f u"
  shows "0 \<le> f v / (\<Sum>u\<leftarrow>r. f u)" "f v / (\<Sum>u\<leftarrow>r. f u) \<le> 1"
proof -
  have "f v \<in> set (map f r)" using assms(1) by simp
  moreover have "\<forall>y\<in>set (map f r). 0 \<le> y" using assms(2) by (auto intro: less_imp_le)
  ultimately have le: "f v \<le> (\<Sum>u\<leftarrow>r. f u)" by (intro member_le_sum_list) auto
  have pos: "0 < (\<Sum>u\<leftarrow>r. f u)" using le assms(2) [of v] by linarith
  show "0 \<le> f v / (\<Sum>u\<leftarrow>r. f u)" using pos assms(2) [of v] by simp
  show "f v / (\<Sum>u\<leftarrow>r. f u) \<le> 1" using pos le by simp
qed

lemma softmax_range:
  assumes "softmax x t = Inr p"
  shows "length p = length x"
    and "r < length x \<Longrightarrow> length (p ! r) = length (x ! r)"
    and "r < length x \<Longrightarrow> i < length (x ! r) \<Longrightarrow> 0 \<le> p ! r ! i \<and> p ! r ! i \<le> 1"
proof -
  have ne: "concat x \<noteq> []" using assms by (auto simp: softmax_def split: if_splits)
  define m where "m = Max (set (concat x))"
  define mn where "mn = Min (set (concat x)) - m"
  define g where "g = (\<lambda>v. if mn < t then (v - m) / mn * t else v - m)"
  have "softmax x t = Inr (map (\<lambda>r. map (\<lambda>v. exp (g v) / (\<Sum>u\<leftarrow>r. exp (g u))) r) x)"
    unfolding softmax_closed_form g_def mn_def m_def using ne by (simp add: Let_def)
  then have p: "p = map (\<lambda>r. map (\<lambda>v. exp (g v) / (\<Sum>u\<leftarrow>r. exp (g u))) r) x"
    using assms by simp
  show "length p = length x" by (simp add: p)
  show "length (p ! r) = length (x ! r)" if "r < length x" using that by (simp add: p)
  show "0 \<le> p ! r ! i \<and> p ! r ! i \<le> 1" if "r < length x" "i < length (x ! r)"
    using that share_range [of "x ! r ! i" "x ! r" "\<lambda>v. exp (g v)"] by (simp add: p)
qed

lemma activate_scores:
  assumes "activate yolo_out obj_thre = Inr a"
  shows "\<exists>rs. class_scores (objectness (rows yolo_out)) = Inr rs \<and>
           length rs = length (rows yolo_out) \<and> length (rows a) = length rs \<and>
           (\<forall>r. r < length rs \<longrightarrow> length (rows a ! r) = length (rs ! r)) \<and>
           (\<forall>r i. r < length rs \<and> 5 \<le> i \<and> i < length (rs ! r) \<longrightarrow>
              0 \<le> rs ! r ! i \<and> rs ! r ! i \<le> 1 \<and>
              rows a ! r ! i = (if obj_thre < rs ! r ! i then rs ! r ! i else 0) \<and>
              0 \<le> rows a ! r ! i \<and> rows a ! r ! i \<le> 1)"
proof -
  let ?os = "objectness (rows yolo_out)"
  obtain rs where rs: "class_scores ?os = Inr rs"
    and a: "a = yolo_out\<lparr>rows := threshold_mask obj_thre rs\<rparr>"
    using assms by (auto simp: activate_def split: if_splits sum.splits)
  obtain p where p: "softmax (map (drop 5) ?os) (- 100) = Inr p"
    and rsp: "rs = map (\<lambda>(v, q). take 5 v @ map (\<lambda>z. v ! 4 * z) q) (zip ?os p)"
    using rs by (auto simp: class_scores_def split: sum.splits)
  note sr = softmax_range [OF p]
  have lp: "length p = length (rows yolo_out)" using sr(1) by (simp add: objectness_def)
  have lo: "length ?os = length (rows yolo_out)" by (simp add: objectness_def)
  have lrs: "length rs = length (rows yolo_out)" by (simp add: rsp lp lo)
  have la: "length (rows a) = length rs" by (simp add: a threshold_mask_def)
  { fix r i assume r: "r < length rs" and i5: "5 \<le> i" and i: "i < length (rs ! r)"
    let ?v = "?os ! r" and ?w = "rows yolo_out ! r"
    have row: "rs ! r = take 5 ?v @ map (\<lambda>z. ?v ! 4 * z) (p ! r)"
      using r lrs lp lo by (simp add: rsp)
    have lpr: "length (p ! r) = length ?v - 5" using sr(2) [of r] r lrs lo by simp
    have "p ! r \<noteq> []" using i i5 row by auto
    then have lv: "5 < length ?v" and ip: "i - 5 < length (p ! r)" using lpr i i5 row by auto
    have e: "rs ! r ! i = ?v ! 4 * p ! r ! (i - 5)"
      using i5 lv ip by (simp add: row nth_append)
    have v4: "?v ! 4 = sigmoid (?w ! 4)" using lv r lrs by (simp add: objectness_def)
    have pr: "0 \<le> p ! r ! (i - 5) \<and> p ! r ! (i - 5) \<le> 1"
      using sr(3) [of r "i - 5"] r lrs lo ip lpr by simp
    have s: "0 < ?v ! 4" "?v ! 4 < 1" by (simp_all add: v4 sigmoid_range)
    have b0: "0 \<le> rs ! r ! i" using pr s by (simp add: e)
    have b1: "rs ! r ! i \<le> 1"
      using pr s mult_mono [of "?v ! 4" 1 "p ! r ! (i - 5)" 1] by (simp add: e)
    have m: "rows a ! r ! i = (if obj_thre < rs ! r ! i then rs ! r ! i else 0)"
      using r i i5 by (simp add: a threshold_mask_def nth_append)
    have "0 \<le> rs ! r ! i \<and> rs ! r ! i \<le> 1 \<and>
          rows a ! r ! i = (if obj_thre < rs ! r ! i then rs ! r ! i else 0) \<and>
          0 \<le> rows a ! r ! i \<and> rows a ! r ! i \<le> 1"
      using b0 b1 m by simp }
  moreover have "length (rows a ! r) = length (rs ! r)" if "r < length rs" for r
    using that by (simp add: a threshold_mask_def)
  ultimately show ?thesis using rs lrs la by blast
qed

text \<open>
  C4, as the code has it. After the activation pass every class score lies between 0 and
  1, and the mask of line 673 keeps a score above \<open>obj_thre\<close> as it is, without
  renormalising, and sets every other score to zero, a score equal to \<open>obj_thre\<close> included.
\<close>

theorem activate_class_scores:
  assumes "activate yolo_out obj_thre = Inr a"
  shows "\<exists>rs. class_scores (objectness (rows yolo_out)) = Inr rs \<and>
           length rs = length (rows yolo_out) \<and> length (rows a) = length rs \<and>
           (\<forall>r i. r < length rs \<and> 5 \<le> i \<and> i < length (rs ! r) \<longrightarrow>
              0 \<le> rs ! r ! i \<and> rs ! r ! i \<le> 1 \<and>
              rows a ! r ! i = (if obj_thre < rs ! r ! i then rs ! r ! i else 0) \<and>
              0 \<le> rows a ! r ! i \<and> rows a ! r ! i \<le> 1)"
  using activate_scores [OF assms] by blast

lemma class_scores_one_cell:
  "class_scores (objectness (rows one_cell)) = Inr [[0, 0, 0, 0, 1 / 2, 1 / 2]]"
  by (simp add: class_scores_def objectness_def one_cell_def softmax_def np_max_def np_min_def
        sigmoid_0)

lemma activate_one_cell:
  "activate one_cell (3 / 10) = Inr (one_cell\<lparr>rows := [[0, 0, 0, 0, 1 / 2, 1 / 2]]\<rparr>)"
  "activate one_cell (1 / 2) = Inr (one_cell\<lparr>rows := [[0, 0, 0, 0, 1 / 2, 0]]\<rparr>)"
  unfolding activate_def class_scores_one_cell by (simp_all add: threshold_mask_def one_cell_def)

theorem activate_class_scores_witness:
  "activate one_cell (3 / 10) = Inr (one_cell\<lparr>rows := [[0, 0, 0, 0, 1 / 2, 1 / 2]]\<rparr>) \<and>
   class_scores (objectness (rows one_cell)) = Inr [[0, 0, 0, 0, 1 / 2, 1 / 2]] \<and>
   rows (one_cell\<lparr>rows := [[0, 0, 0, 0, 1 / 2, 1 / 2]]\<rparr>) ! 0 ! 5 \<le> 1"
  using activate_class_scores [OF activate_one_cell(1)] class_scores_one_cell activate_one_cell(1)
  by auto

text \<open>
  Against C4 as stated: a class score equal to the threshold is not strictly below it, and
  the mask sets it to zero.
\<close>

theorem threshold_mask_counterexample:
  "class_scores (objectness (rows one_cell)) = Inr [[0, 0, 0, 0, 1 / 2, 1 / 2]] \<and>
   \<not> (1 / 2 :: real) < 1 / 2 \<and>
   activate one_cell (1 / 2) = Inr (one_cell\<lparr>rows := [[0, 0, 0, 0, 1 / 2, 0]]\<rparr>)"
  using class_scores_one_cell activate_one_cell(2) by simp

section \<open>The whole function\<close>

lemma suppress_Nil: "suppress [] nms_thre ks st = Inr st"
  by (induction ks) (simp_all add: suppress_class_def sorted_indices_def argsort_def)

lemma final_filter_Nil: "final_filter st obj_thre [] = Inr []"
  by (simp add: final_filter_def)

lemma collect_member:
  "collect f xs = Inr ys \<Longrightarrow> y \<in> set ys \<Longrightarrow> \<exists>x zs. x \<in> set xs \<and> f x = Inr zs \<and> y \<in> set zs"
proof (induction xs arbitrary: ys)
  case Nil
  then show ?case by simp
next
  case (Cons x xs)
  then obtain zs ws where z: "f x = Inr zs" and w: "collect f xs = Inr ws" and ys: "ys = zs @ ws"
    by (auto split: sum.splits)
  show ?case
  proof (cases "y \<in> set zs")
    case True
    then show ?thesis using z by auto
  next
    case False
    then have "y \<in> set ws" using Cons.prems(2) ys by simp
    then show ?thesis using Cons.IH [OF w] by auto
  qed
qed

lemma collect_empty:
  "(\<And>x. x \<in> set xs \<Longrightarrow> f x = Inr []) \<Longrightarrow> collect f xs = Inr []"
  by (induction xs) simp_all

lemma candidates_member:
  assumes "candidates a anchors fm_height fm_width grid_h grid_w nb_box = Inr boxes"
    and "box \<in> set boxes"
  shows "\<exists>row col b zs. row < grid_h \<and> col < grid_w \<and> b < nb_box \<and>
           loop_body a anchors fm_height fm_width grid_h grid_w row col b = Inr zs \<and> box \<in> set zs"
proof -
  from collect_member [OF assms [unfolded candidates_def]]
  obtain row bs1 where row: "row \<in> set [0..<grid_h]"
    and c1: "collect (\<lambda>col. collect (\<lambda>b. loop_body a anchors fm_height fm_width grid_h grid_w row col b)
               [0..<nb_box]) [0..<grid_w] = Inr bs1" and m1: "box \<in> set bs1"
    by blast
  from collect_member [OF c1 m1]
  obtain col bs2 where col: "col \<in> set [0..<grid_w]"
    and c2: "collect (\<lambda>b. loop_body a anchors fm_height fm_width grid_h grid_w row col b)
               [0..<nb_box] = Inr bs2" and m2: "box \<in> set bs2"
    by blast
  from collect_member [OF c2 m2]
  obtain b zs where "b \<in> set [0..<nb_box]"
    "loop_body a anchors fm_height fm_width grid_h grid_w row col b = Inr zs" "box \<in> set zs"
    by blast
  then show ?thesis using row col by auto
qed

lemma loop_body_member:
  assumes "loop_body a anchors fm_height fm_width grid_h grid_w row col b = Inr zs"
    and "box \<in> set zs"
  shows "length (shape a) = 4 \<and>
         box = pixel_box fm_height fm_width
                 (first_box (rows a ! cell_row (shape a) row col b) anchors grid_h grid_w row col b
                    (cell_row (shape a) row col b))"
  using assms by (auto simp: loop_body_def Let_def split: if_splits)

lemma get_score_fields:
  assumes "get_score st box = Inr box'"
  shows "xmin box' = xmin box \<and> ymin box' = ymin box \<and> xmax box' = xmax box \<and>
         ymax box' = ymax box \<and> c box' = c box \<and> classes box' = classes box"
  using assms by (auto simp: get_score_def get_label_def split: if_splits sum.splits)

lemma final_filter_member:
  assumes "final_filter st obj_thre boxes = Inr kept" and "box' \<in> set kept"
  shows "\<exists>box\<in>set boxes. get_score st box = Inr box' \<and> obj_thre < score box'"
proof -
  from collect_member [OF assms [unfolded final_filter_def]]
  obtain box zs where "box \<in> set boxes"
    "(case get_score st box of Inl e \<Rightarrow> Inl e
      | Inr b \<Rightarrow> Inr (if score b > obj_thre then [b] else [])) = Inr zs" "box' \<in> set zs"
    by blast
  then show ?thesis by (auto split: sum.splits if_splits)
qed

lemma batch_decode_yolo_steps:
  assumes "batch_decode_yolo yolo_out anchors nb_class fms obj_thre nms_thre = Inr (kept, a')"
  shows "\<exists>a boxes st.
           4 \<le> length (shape yolo_out) \<and>
           activate yolo_out obj_thre = Inr a \<and>
           candidates a anchors (fst fms) (snd fms) (shape yolo_out ! 1) (shape yolo_out ! 2)
             (shape yolo_out ! 3) = Inr boxes \<and>
           suppress boxes nms_thre [0..<nb_class] (rows a) = Inr st \<and>
           final_filter st obj_thre boxes = Inr kept \<and>
           a' = a\<lparr>rows := st\<rparr>"
  using assms by (auto simp: batch_decode_yolo_def Let_def split: if_splits sum.splits)

lemma activate_shape: "activate yolo_out obj_thre = Inr a \<Longrightarrow> shape a = shape yolo_out"
  by (auto simp: activate_def split: if_splits sum.splits)

lemma candidate_origin:
  assumes "candidates a anchors fm_height fm_width grid_h grid_w nb_box = Inr boxes"
    and "box \<in> set boxes"
  shows "\<exists>row col b nbox.
           length (shape a) = 4 \<and> row < grid_h \<and> col < grid_w \<and> b < nb_box \<and>
           nbox = first_box (rows a ! cell_row (shape a) row col b) anchors grid_h grid_w
                    row col b (cell_row (shape a) row col b) \<and>
           classes box = cell_row (shape a) row col b \<and>
           row < shape a ! 0 \<and> col < shape a ! 1 \<and> b < shape a ! 2 \<and>
           xmin box = real_of_int (min (int_trunc (xmin nbox * real_of_int fm_width)) fm_height) \<and>
           ymin box = real_of_int (min (int_trunc (ymin nbox * real_of_int fm_height)) fm_height) \<and>
           xmax box = real_of_int (min (int_trunc (xmax nbox * real_of_int fm_width)) fm_width) \<and>
           ymax box = real_of_int (min (int_trunc (ymax nbox * real_of_int fm_height)) fm_height)"
proof -
  from candidates_member [OF assms]
  obtain row col b zs where rc: "row < grid_h" "col < grid_w" "b < nb_box"
    and lb: "loop_body a anchors fm_height fm_width grid_h grid_w row col b = Inr zs"
    and mz: "box \<in> set zs"
    by blast
  let ?r = "cell_row (shape a) row col b"
  let ?nb = "first_box (rows a ! ?r) anchors grid_h grid_w row col b ?r"
  have l4: "length (shape a) = 4" and px: "box = pixel_box fm_height fm_width ?nb"
    using loop_body_member [OF lb mz] by auto
  have inside: "row < shape a ! 0 \<and> col < shape a ! 1 \<and> b < shape a ! 2"
    using lb by (auto simp: loop_body_def Let_def split: if_splits)
  have "classes box = ?r" by (simp add: px pixel_box_def first_box_def Let_def)
  moreover have
    "xmin box = real_of_int (min (int_trunc (xmin ?nb * real_of_int fm_width)) fm_height) \<and>
     ymin box = real_of_int (min (int_trunc (ymin ?nb * real_of_int fm_height)) fm_height) \<and>
     xmax box = real_of_int (min (int_trunc (xmax ?nb * real_of_int fm_width)) fm_width) \<and>
     ymax box = real_of_int (min (int_trunc (ymax ?nb * real_of_int fm_height)) fm_height)"
    by (simp add: px pixel_box_def Let_def)
  ultimately show ?thesis using l4 rc inside by blast
qed

text \<open>
  C3, as the code has it. Every candidate that box reconstruction emits comes from a
  triple \<open>(row, col, b)\<close> of an array with four axes, and its pixel coordinates are those
  of the box of line 692 scaled by the size of the feature map, truncated toward zero by
  \<^verbatim>\<open>int\<close> and then clipped: \<open>xmin\<close>, \<open>ymin\<close> and \<open>ymax\<close> against the height, \<open>xmax\<close>
  against the width.
\<close>

theorem emitted_box_coordinates:
  assumes "candidates a anchors fm_height fm_width grid_h grid_w nb_box = Inr boxes"
    and "box \<in> set boxes"
  shows "\<exists>row col b nbox.
           length (shape a) = 4 \<and> row < grid_h \<and> col < grid_w \<and> b < nb_box \<and>
           nbox = first_box (rows a ! cell_row (shape a) row col b) anchors grid_h grid_w
                    row col b (cell_row (shape a) row col b) \<and>
           xmin box = real_of_int (min (int_trunc (xmin nbox * real_of_int fm_width)) fm_height) \<and>
           ymin box = real_of_int (min (int_trunc (ymin nbox * real_of_int fm_height)) fm_height) \<and>
           xmax box = real_of_int (min (int_trunc (xmax nbox * real_of_int fm_width)) fm_width) \<and>
           ymax box = real_of_int (min (int_trunc (ymax nbox * real_of_int fm_height)) fm_height)"
  using candidate_origin [OF assms] by blast

text \<open>The boxes that the function returns are candidates, with label and score set.\<close>

lemma kept_box_origin:
  assumes "batch_decode_yolo yolo_out anchors nb_class fms obj_thre nms_thre = Inr (kept, a')"
    and "box \<in> set kept"
  shows "\<exists>a boxes box0.
           activate yolo_out obj_thre = Inr a \<and> length (shape a) = 4 \<and>
           candidates a anchors (fst fms) (snd fms) (shape yolo_out ! 1) (shape yolo_out ! 2)
             (shape yolo_out ! 3) = Inr boxes \<and>
           box0 \<in> set boxes \<and>
           xmin box = xmin box0 \<and> ymin box = ymin box0 \<and> xmax box = xmax box0 \<and>
           ymax box = ymax box0 \<and> c box = c box0 \<and> classes box = classes box0"
proof -
  from batch_decode_yolo_steps [OF assms(1)]
  obtain a boxes st where a: "activate yolo_out obj_thre = Inr a"
    and cand: "candidates a anchors (fst fms) (snd fms) (shape yolo_out ! 1)
                 (shape yolo_out ! 2) (shape yolo_out ! 3) = Inr boxes"
    and fin: "final_filter st obj_thre boxes = Inr kept"
    by auto
  from final_filter_member [OF fin assms(2)]
  obtain box0 where b0: "box0 \<in> set boxes" and gs: "get_score st box0 = Inr box" by blast
  have "length (shape a) = 4" using candidate_origin [OF cand b0] by blast
  then show ?thesis using a cand b0 get_score_fields [OF gs] by blast
qed

text \<open>
  On an array with five or more axes, the shape that the docstring gives, a call that
  returns has found no box.
\<close>

lemma five_axes_no_box:
  assumes "5 \<le> length (shape yolo_out)"
    and "batch_decode_yolo yolo_out anchors nb_class fms obj_thre nms_thre = Inr (kept, a')"
  shows "kept = []"
proof (rule ccontr)
  assume "kept \<noteq> []"
  then obtain box where box: "box \<in> set kept" by (cases kept) auto
  from kept_box_origin [OF assms(2) box]
  obtain a where "activate yolo_out obj_thre = Inr a" "length (shape a) = 4" by blast
  then show False using assms(1) activate_shape by fastforce
qed


lemma activate_rows:
  assumes "activate yolo_out obj_thre = Inr a"
  shows "length (rows a) = length (rows yolo_out)"
    and "r < length (rows yolo_out) \<Longrightarrow> length (rows a ! r) = length (rows yolo_out ! r)"
    and "r < length (rows yolo_out) \<Longrightarrow> i < 4 \<Longrightarrow> i < length (rows yolo_out ! r) \<Longrightarrow>
           rows a ! r ! i = rows yolo_out ! r ! i"
    and "r < length (rows yolo_out) \<Longrightarrow> 4 < length (rows yolo_out ! r) \<Longrightarrow>
           rows a ! r ! 4 = sigmoid (rows yolo_out ! r ! 4)"
proof -
  let ?os = "objectness (rows yolo_out)"
  obtain rs where rs: "class_scores ?os = Inr rs"
    and a: "a = yolo_out\<lparr>rows := threshold_mask obj_thre rs\<rparr>"
    using assms by (auto simp: activate_def split: if_splits sum.splits)
  obtain p where p: "softmax (map (drop 5) ?os) (- 100) = Inr p"
    and rsp: "rs = map (\<lambda>(v, q). take 5 v @ map (\<lambda>z. v ! 4 * z) q) (zip ?os p)"
    using rs by (auto simp: class_scores_def split: sum.splits)
  note sr = softmax_range [OF p]
  have lo: "length ?os = length (rows yolo_out)" by (simp add: objectness_def)
  have lp: "length p = length (rows yolo_out)" using sr(1) lo by simp
  have lrs: "length rs = length (rows yolo_out)" by (simp add: rsp lp lo)
  show "length (rows a) = length (rows yolo_out)" by (simp add: a threshold_mask_def lrs)
  { assume r: "r < length (rows yolo_out)"
    let ?v = "?os ! r" and ?w = "rows yolo_out ! r"
    have v: "?v = ?w[4 := sigmoid (?w ! 4)]" using r by (simp add: objectness_def)
    have row: "rs ! r = take 5 ?v @ map (\<lambda>z. ?v ! 4 * z) (p ! r)"
      using r lp lo by (simp add: rsp)
    have lpr: "length (p ! r) = length ?v - 5" using sr(2) [of r] r lo by simp
    have lrow: "length (rs ! r) = length ?w" by (simp add: row lpr v)
    have ar: "rows a ! r = take 5 (rs ! r) @ map (\<lambda>z. z * (if z > obj_thre then 1 else 0)) (drop 5 (rs ! r))"
      using r lrs by (simp add: a threshold_mask_def)
    show "length (rows a ! r) = length ?w" by (simp add: ar lrow)
    have low: "rows a ! r ! i = ?v ! i" if "i < 5" "i < length ?w" for i
      using that lrow by (simp add: ar nth_append row v)
    show "rows a ! r ! i = ?w ! i" if "i < 4" "i < length ?w"
      using that low [of i] by (simp add: v)
    show "rows a ! r ! 4 = sigmoid (?w ! 4)" if "4 < length ?w"
      using that low [of 4] by (simp add: v) }
qed



lemma mult_add_less:
  fixes a b :: nat
  assumes "a < A" "b < B"
  shows "a * B + b < A * B"
proof -
  have "a * B + b < a * B + B" using assms(2) by simp
  also have "\<dots> = Suc a * B" by simp
  also have "\<dots> \<le> A * B" using assms(1) by (intro mult_le_mono1) simp
  finally show ?thesis .
qed

text \<open>
  The activation pass keeps an array well formed, and the views of the candidates of a
  well-formed array lie in the array.
\<close>

lemma activate_wf:
  assumes "wf_array yolo_out" "activate yolo_out obj_thre = Inr a"
  shows "wf_array a"
proof -
  note ar = activate_rows [OF assms(2)]
  have sh: "shape a = shape yolo_out" using assms(2) by (rule activate_shape)
  have "length (rows a ! r) = last (shape a)" if "r < length (rows a)" for r
  proof -
    have r: "r < length (rows yolo_out)" using that ar(1) by simp
    then have "length (rows yolo_out ! r) = last (shape yolo_out)"
      using assms(1) by (simp add: wf_array_def list_all_length)
    then show ?thesis using ar(2) [OF r] sh by simp
  qed
  then show ?thesis using assms(1) ar(1) sh by (simp add: wf_array_def list_all_length)
qed

lemma candidates_views:
  assumes "wf_array a"
    and "candidates a anchors fm_height fm_width grid_h grid_w nb_box = Inr boxes"
  shows "\<forall>box\<in>set boxes. classes box < length (rows a)"
proof
  fix box assume "box \<in> set boxes"
  from candidate_origin [OF assms(2) this]
  obtain row col b where l4: "length (shape a) = 4"
    and cl: "classes box = cell_row (shape a) row col b"
    and inside: "row < shape a ! 0" "col < shape a ! 1" "b < shape a ! 2"
    by blast
  obtain s0 s1 s2 s3 where s: "shape a = [s0, s1, s2, s3]"
    using l4 by (auto simp: numeral_eq_Suc length_Suc_conv)
  have len: "length (rows a) = s0 * s1 * s2" using assms(1) by (simp add: wf_array_def s)
  have "row * s1 + col < s0 * s1" "b < s2" using inside by (simp_all add: s mult_add_less)
  then have "(row * s1 + col) * s2 + b < s0 * s1 * s2" by (rule mult_add_less)
  then show "classes box < length (rows a)" by (simp add: cl cell_row_def s len)
qed

lemma all_zero_sum: "(\<And>x. x \<in> set xs \<Longrightarrow> x = 0) \<Longrightarrow> sum_list xs = (0::real)"
  by (induction xs) simp_all

lemma activate_succeeds:
  assumes "rows yolo_out \<noteq> []" "\<forall>v\<in>set (rows yolo_out). 5 < length v" "5 \<le> last (shape yolo_out)"
  shows "\<exists>a. activate yolo_out obj_thre = Inr a"
proof -
  obtain v vs where vs: "rows yolo_out = v # vs" using assms(1) by (cases "rows yolo_out") auto
  then have "5 < length v" using assms(2) by simp
  then have "drop 5 (v[4 := sigmoid (v ! 4)]) \<noteq> []" by simp
  then have "concat (map (drop 5) (objectness (rows yolo_out))) \<noteq> []"
    by (simp add: objectness_def vs)
  then obtain p where "softmax (map (drop 5) (objectness (rows yolo_out))) (- 100) = Inr p"
    by (simp add: softmax_def Let_def)
  then show ?thesis using assms(3) by (simp add: activate_def class_scores_def)
qed

lemma no_class_above_one:
  assumes "activate yolo_out obj_thre = Inr a" "1 \<le> obj_thre" "r < length (rows yolo_out)"
  shows "sum_list (drop 5 (rows a ! r)) = 0"
proof -
  from activate_scores [OF assms(1)]
  obtain rs where lrs: "length rs = length (rows yolo_out)"
    and lr: "\<And>r. r < length rs \<Longrightarrow> length (rows a ! r) = length (rs ! r)"
    and e: "\<And>r i. r < length rs \<Longrightarrow> 5 \<le> i \<Longrightarrow> i < length (rs ! r) \<Longrightarrow>
              rs ! r ! i \<le> 1 \<and> rows a ! r ! i = (if obj_thre < rs ! r ! i then rs ! r ! i else 0)"
    by blast
  have "x = 0" if "x \<in> set (drop 5 (rows a ! r))" for x
  proof -
    from that obtain j where j: "j < length (rows a ! r) - 5" "x = rows a ! r ! (5 + j)"
      by (auto simp: in_set_conv_nth)
    have r: "r < length rs" using assms(3) lrs by simp
    have "5 + j < length (rs ! r)" using j(1) lr [OF r] by simp
    from e [OF r _ this] have "rs ! r ! (5 + j) \<le> 1"
      "rows a ! r ! (5 + j) = (if obj_thre < rs ! r ! (5 + j) then rs ! r ! (5 + j) else 0)"
      by simp_all
    then show ?thesis using j(2) assms(2) by simp
  qed
  then show ?thesis by (rule all_zero_sum)
qed

text \<open>
  C8, as the code has it. There is no check of the anchors or of the thresholds. On a
  well-formed array with four axes whose loops stay inside the array (the loops run to the
  lengths of axes 1 to 3 and index axes 0 to 2, so no axis is longer than the one before
  it) and with a class, a call with \<open>obj_thre\<close> of 1 or more finds no candidate and returns
  the empty list, whatever the anchors and whatever \<open>nms_thre\<close>.
\<close>

theorem returns_without_validation:
  assumes "wf_array yolo_out"
    and "shape yolo_out = [d0, d1, d2, d3]"
    and "d1 \<le> d0" and "d2 \<le> d1" and "d3 \<le> d2" and "6 \<le> d3"
    and "1 \<le> obj_thre"
  shows "\<exists>a. batch_decode_yolo yolo_out anchors nb_class fms obj_thre nms_thre = Inr ([], a)"
proof -
  have len: "length (rows yolo_out) = d0 * d1 * d2"
    and rl: "\<forall>v\<in>set (rows yolo_out). length v = d3"
    using assms(1,2) by (simp_all add: wf_array_def list_all_iff)
  have pos: "0 < d0 * d1 * d2" using assms(3-6) by simp
  have ne: "rows yolo_out \<noteq> []" using len pos by auto
  obtain a where a: "activate yolo_out obj_thre = Inr a"
    using activate_succeeds [of yolo_out obj_thre] ne rl assms(2,6) by auto
  have sh: "shape a = [d0, d1, d2, d3]" using activate_shape [OF a] assms(2) by simp
  have body: "loop_body a anchors (fst fms) (snd fms) d1 d2 row col b = Inr []"
    if "row < d1" "col < d2" "b < d3" for row col b
  proof -
    have "row < d0" "col < d1" "b < d2" using that assms(3-5) by simp_all
    then have "row * d1 + col < d0 * d1" "b < d2" by (simp_all add: mult_add_less)
    then have "(row * d1 + col) * d2 + b < d0 * d1 * d2" by (rule mult_add_less)
    then have "sum_list (drop 5 (rows a ! cell_row (shape a) row col b)) = 0"
      using no_class_above_one [OF a assms(7)] len by (simp add: cell_row_def sh)
    then show ?thesis
      using that assms(3-5) by (simp add: loop_body_def sh Let_def)
  qed
  have "candidates a anchors (fst fms) (snd fms) d1 d2 d3 = Inr []"
    unfolding candidates_def by (intro collect_empty) (simp_all add: body)
  then show ?thesis
    using a by (simp add: batch_decode_yolo_def assms(2) suppress_Nil final_filter_Nil)
qed

section \<open>The function on concrete arrays\<close>

lemma softmax_one_class:
  assumes "x \<noteq> []" "\<forall>r\<in>set x. length r = 1"
  shows "softmax x t = Inr (map (\<lambda>r. [1]) x)"
proof -
  from assms have ne: "concat x \<noteq> []" by (cases x) (auto simp: length_Suc_conv)
  have "\<And>g::real \<Rightarrow> real.
      map (\<lambda>r. map (\<lambda>e. e / sum_list r) r) (map (map exp) (map (map g) x)) = map (\<lambda>r. [1]) x"
    using assms(2) by (induction x) (auto simp: length_Suc_conv)
  then show ?thesis using ne by (simp add: softmax_def Let_def)
qed

lemma activate_one_class:
  assumes "rows a \<noteq> []" "\<forall>v\<in>set (rows a). length v = 6" "5 \<le> last (shape a)"
  shows "activate a obj_thre =
    Inr (a\<lparr>rows := map (\<lambda>v. take 4 v @ [sigmoid (v ! 4),
             sigmoid (v ! 4) * (if sigmoid (v ! 4) > obj_thre then 1 else 0)]) (rows a)\<rparr>)"
proof -
  let ?rs = "objectness (rows a)"
  have s: "softmax (map (drop 5) ?rs) (- 100) = Inr (map (\<lambda>r. [1]) (map (drop 5) ?rs))"
    using assms(1,2) by (intro softmax_one_class) (auto simp: objectness_def)
  have "threshold_mask obj_thre (map (\<lambda>(v, q). take 5 v @ map (\<lambda>z. v ! 4 * z) q)
           (zip ?rs (map (\<lambda>r. [1]) (map (drop 5) ?rs))))
      = map (\<lambda>v. take 4 v @ [sigmoid (v ! 4),
             sigmoid (v ! 4) * (if sigmoid (v ! 4) > obj_thre then 1 else 0)]) (rows a)"
    using assms(2)
    by (auto simp add: threshold_mask_def objectness_def zip_map2 zip_same_conv_map zip_map1
          numeral_eq_Suc length_Suc_conv)
  then show ?thesis using assms(3) by (simp add: activate_def class_scores_def s)
qed



lemma candidates_six_grid:
  assumes "4 \<le> length anchors"
  shows "candidates six_grid_activated anchors fm_height fm_width 6 6 6 =
     Inr [pixel_box fm_height fm_width (first_box [0, 0, 0, 0, 1 / 2, 1 / 2] anchors 6 6 0 0 0 0),
          pixel_box fm_height fm_width (first_box [0, 0, 0, 0, 1 / 2, 1 / 2] anchors 6 6 0 0 1 1)]"
  using assms
  by (simp add: candidates_def loop_body_def six_grid_activated_def cell_row_def
        upt_rec [of _ "numeral _"] Let_def)

lemma unit_first_box:
  "first_box [0, 0, 0, 0, 1 / 2, 1 / 2] unit_anchors 6 6 0 0 b r =
     \<lparr>xmin = 0, ymin = 0, xmax = 1 / 6, ymax = 1 / 6, c = 1 / 2, classes = r,
      label = - 1, score = - 1\<rparr>" if "b < 2"
proof -
  have "b = 0 \<or> b = 1" using that by auto
  then show ?thesis
    by (auto simp: first_box_def unit_anchors_def sigmoid_0 Let_def)
qed

lemma unit_pixel_boxes:
  "pixel_box 28 28 (first_box [0, 0, 0, 0, 1 / 2, 1 / 2] unit_anchors 6 6 0 0 0 0) = box_0"
  "pixel_box 28 28 (first_box [0, 0, 0, 0, 1 / 2, 1 / 2] unit_anchors 6 6 0 0 1 1) = box_1"
  by (simp_all add: unit_first_box pixel_box_def int_trunc_def box_0_def box_1_def Let_def)



lemma candidates_unit:
  "candidates six_grid_activated unit_anchors 28 28 6 6 6 = Inr [box_0, box_1]"
proof -
  have l: "4 \<le> length unit_anchors" by (simp add: unit_anchors_def)
  show ?thesis by (simp only: candidates_six_grid [OF l] unit_pixel_boxes)
qed








lemma sigmoid_half: "3 < sigmoid (1 / 2) * 10"
proof -
  have "exp (- (1 / 2) :: real) < 1" by simp
  then have "1 / 2 < 1 / (1 + exp (- (1 / 2) :: real))" by (simp add: field_simps add_pos_pos)
  then show ?thesis by (simp add: sigmoid_def)
qed

text \<open>On an array with five axes and a fourth axis of length 1 no cell has classes.\<close>

lemma candidates_batch:
  assumes "shape a = [2, 1, 1, 1, 6]"
  shows "candidates a anchors fm_height fm_width 1 1 1 = Inr []"
  by (simp add: candidates_def loop_body_def assms cell_row_def)

lemma decode_batch:
  assumes "shape yolo_out = [2, 1, 1, 1, 6]" "activate yolo_out obj_thre = Inr a"
  shows "batch_decode_yolo yolo_out anchors nb_class fms obj_thre nms_thre = Inr ([], a)"
proof -
  have "shape a = [2, 1, 1, 1, 6]" using activate_shape [OF assms(2)] assms(1) by simp
  then have "candidates a anchors (fst fms) (snd fms) 1 1 1 = Inr []" by (rule candidates_batch)
  then show ?thesis
    by (simp add: batch_decode_yolo_def assms suppress_Nil final_filter_Nil)
qed

lemma activate_batch_of_two:
  "activate batch_of_two (3 / 10) = Inr batch_of_two_decoded"
  "activate batch_of_two 2 = Inr batch_of_two_masked"
  "activate batch_of_two_decoded (3 / 10) = Inr batch_of_two_twice"
proof -
  have a: "activate a t = Inr (a\<lparr>rows := map (\<lambda>v. take 4 v @ [sigmoid (v ! 4),
             sigmoid (v ! 4) * (if sigmoid (v ! 4) > t then 1 else 0)]) (rows a)\<rparr>)"
    if "a = batch_of_two \<or> a = batch_of_two_decoded" for a t
    using that by (intro activate_one_class) (auto simp: batch_of_two_def batch_of_two_decoded_def)
  show "activate batch_of_two (3 / 10) = Inr batch_of_two_decoded"
    by (simp add: a) (simp add: batch_of_two_def batch_of_two_decoded_def sigmoid_0)
  show "activate batch_of_two 2 = Inr batch_of_two_masked"
    by (simp add: a) (simp add: batch_of_two_def batch_of_two_masked_def sigmoid_0)
  show "activate batch_of_two_decoded (3 / 10) = Inr batch_of_two_twice"
    using sigmoid_half by (simp add: a) (simp add: batch_of_two_decoded_def batch_of_two_twice_def)
qed

lemma decode_batch_of_two:
  "batch_decode_yolo batch_of_two [1, 1] 1 (28, 28) (3 / 10) (3 / 10) = Inr ([], batch_of_two_decoded)"
  "batch_decode_yolo batch_of_two_decoded [1, 1] 1 (28, 28) (3 / 10) (3 / 10)
     = Inr ([], batch_of_two_twice)"
  "batch_decode_yolo batch_of_two [] 1 (28, 28) 2 (- 1) = Inr ([], batch_of_two_masked)"
proof -
  have s: "shape batch_of_two = [2, 1, 1, 1, 6]" "shape batch_of_two_decoded = [2, 1, 1, 1, 6]"
    by (simp_all add: batch_of_two_def batch_of_two_decoded_def)
  show "batch_decode_yolo batch_of_two [1, 1] 1 (28, 28) (3 / 10) (3 / 10)
          = Inr ([], batch_of_two_decoded)"
    using s(1) activate_batch_of_two(1) by (rule decode_batch)
  show "batch_decode_yolo batch_of_two_decoded [1, 1] 1 (28, 28) (3 / 10) (3 / 10)
          = Inr ([], batch_of_two_twice)"
    using s(2) activate_batch_of_two(3) by (rule decode_batch)
  show "batch_decode_yolo batch_of_two [] 1 (28, 28) 2 (- 1) = Inr ([], batch_of_two_masked)"
    using s(1) activate_batch_of_two(2) by (rule decode_batch)
qed

lemma decode_one_cell:
  "batch_decode_yolo one_cell [1, 1] 1 (28, 28) (3 / 10) (3 / 10) = Inl IndexError"
proof -
  have "candidates (one_cell\<lparr>rows := [[0, 0, 0, 0, 1 / 2, 1 / 2]]\<rparr>) [1, 1] 28 28 1 1 6
          = Inl IndexError"
    by (simp add: candidates_def loop_body_def one_cell_def cell_row_def upt_rec [of _ "numeral _"])
  then show ?thesis
    by (simp add: batch_decode_yolo_def activate_one_cell(1)) (simp add: one_cell_def)
qed

text \<open>
  C1 fails on the code. A batch of two images, each with a class score of \<open>1 / 2\<close>, above
  the threshold \<open>3 / 10\<close>: the call returns one list for the batch, not one per image, and
  the list is empty. One of these images alone, as an array with four axes, makes the call
  raise \<^verbatim>\<open>IndexError\<close>.
\<close>

theorem batch_of_two_one_empty_list:
  "batch_decode_yolo batch_of_two [1, 1] 1 (28, 28) (3 / 10) (3 / 10)
     = Inr ([], batch_of_two_decoded) \<and>
   rows batch_of_two_decoded ! 0 ! 5 = 1 / 2 \<and>
   rows batch_of_two_decoded ! 1 ! 5 = 1 / 2 \<and>
   batch_decode_yolo one_cell [1, 1] 1 (28, 28) (3 / 10) (3 / 10) = Inl IndexError"
proof -
  have "rows batch_of_two_decoded ! 0 ! 5 = 1 / 2" "rows batch_of_two_decoded ! 1 ! 5 = 1 / 2"
    by (simp_all add: batch_of_two_decoded_def)
  then show ?thesis using decode_batch_of_two(1) decode_one_cell by (intro conjI)
qed

theorem emitted_box_coordinates_witness:
  "candidates six_grid_activated unit_anchors 28 28 6 6 6 = Inr [box_0, box_1] \<and>
   (\<exists>row col b nbox.
      nbox = first_box (rows six_grid_activated ! cell_row (shape six_grid_activated) row col b)
               unit_anchors 6 6 row col b (cell_row (shape six_grid_activated) row col b) \<and>
      xmax box_1 = real_of_int (min (int_trunc (xmax nbox * real_of_int 28)) 28))"
proof -
  have "box_1 \<in> set [box_0, box_1]" by simp
  from emitted_box_coordinates [OF candidates_unit this]
  obtain row col b nbox where
    "nbox = first_box (rows six_grid_activated ! cell_row (shape six_grid_activated) row col b)
               unit_anchors 6 6 row col b (cell_row (shape six_grid_activated) row col b)"
    "xmax box_1 = real_of_int (min (int_trunc (xmax nbox * real_of_int 28)) 28)"
    by (elim exE conjE)
  then show ?thesis using candidates_unit by (intro conjI exI)
qed

text \<open>
  Against C3 as stated: the candidate of cell \<open>(0, 0, 1)\<close> of \<open>six_grid\<close> has \<open>xmax = 4\<close>,
  the truncation of \<open>14 / 3\<close>, where rounding gives 5.
\<close>

theorem rounding_counterexample:
  "candidates six_grid_activated unit_anchors 28 28 6 6 6 = Inr [box_0, box_1] \<and>
   classes box_1 = cell_row (shape six_grid_activated) 0 0 1 \<and>
   xmax box_1 = 4 \<and>
   real_of_int (min (round (xmax (first_box (rows six_grid_activated ! 1) unit_anchors 6 6 0 0 1 1)
                              * real_of_int 28)) 28) = 5"
proof -
  have r: "rows six_grid_activated ! 1 = [0, 0, 0, 0, 1 / 2, 1 / 2]"
    by (simp add: six_grid_activated_def)
  have f: "first_box [0, 0, 0, 0, 1 / 2, 1 / 2] unit_anchors 6 6 0 0 1 1 =
       \<lparr>xmin = 0, ymin = 0, xmax = 1 / 6, ymax = 1 / 6, c = 1 / 2, classes = 1,
        label = - 1, score = - 1\<rparr>"
    by (rule unit_first_box) simp
  have "real_of_int (min (round (xmax (first_box (rows six_grid_activated ! 1) unit_anchors
            6 6 0 0 1 1) * real_of_int 28)) 28) = 5"
    unfolding r f by (simp add: round_def)
  moreover have "xmax box_1 = 4" by (simp add: box_1_def)
  moreover have "classes box_1 = cell_row (shape six_grid_activated) 0 0 1"
    by (simp add: box_1_def cell_row_def six_grid_activated_def)
  ultimately show ?thesis using candidates_unit by (intro conjI)
qed


lemma wf_six_grid: "wf_array six_grid"
  by (simp add: wf_array_def six_grid_def list_all_iff)

theorem returns_without_validation_witness:
  "wf_array six_grid \<and> shape six_grid = [6, 6, 6, 6] \<and> (1::real) \<le> 1 \<and>
   (\<exists>a. batch_decode_yolo six_grid [] 1 (28, 28) 1 (7 / 2) = Inr ([], a))"
proof -
  have s: "shape six_grid = [6, 6, 6, 6]" by (simp add: six_grid_def)
  have le: "(6::nat) \<le> 6" by simp
  have t: "(1::real) \<le> 1" by simp
  from returns_without_validation [OF wf_six_grid s le le le le t]
  show ?thesis using wf_six_grid s t by (intro conjI)
qed

text \<open>
  Against C8 as stated: no anchors where two are due, and both thresholds outside the unit
  interval; the call returns.
\<close>

theorem no_validation_counterexample:
  "length ([] :: real list) \<noteq> 2 * 1 \<and> \<not> (2::real) \<le> 1 \<and> \<not> (0::real) \<le> - 1 \<and>
   batch_decode_yolo batch_of_two [] 1 (28, 28) 2 (- 1) = Inr ([], batch_of_two_masked)"
  using decode_batch_of_two(3) by simp



end
